theory Spec2Isabelle
  imports Main "HOL-Library.Word" "HOL-Library.Sublist"
begin

section \<open>Data: Python strings and bytes\<close>

text \<open>
  The script \<^verbatim>\<open>diagrams/flowcharts.py\<close> works on Python \<^verbatim>\<open>str\<close> and
  \<^verbatim>\<open>bytes\<close> values. A \<^verbatim>\<open>str\<close> is a sequence of Unicode code points (any
  value below \<open>0x110000\<close>, lone surrogates included); a \<^verbatim>\<open>bytes\<close> value is a
  sequence of octets.
\<close>

type_synonym str = "nat list"
type_synonym byte = "8 word"
type_synonym bytes = "byte list"

section \<open>UTF-8: \<^verbatim>\<open>str.encode('utf-8')\<close> and \<^verbatim>\<open>bytes.decode('utf-8')\<close>\<close>

text \<open>
  Both calls use the strict error handler. Encoding raises \<^verbatim>\<open>UnicodeEncodeError\<close> on a
  surrogate code point (\<open>None\<close> below); decoding raises \<^verbatim>\<open>UnicodeDecodeError\<close> on a
  byte sequence that is not well-formed UTF-8 (overlong forms, encoded surrogates, values
  above \<open>0x10FFFF\<close>, stray or missing continuation bytes). The arithmetic is done on the
  byte values as natural numbers; \<open>str_encode_utf8\<close> and \<open>bytes_decode_utf8\<close> wrap it
  for octets.
\<close>

definition is_surrogate :: "nat \<Rightarrow> bool" where
  "is_surrogate c \<longleftrightarrow> 0xD800 \<le> c \<and> c \<le> 0xDFFF"

definition encode_code_point :: "nat \<Rightarrow> nat list option" where
  "encode_code_point c =
     (if c < 0x80 then Some [c]
      else if c < 0x800 then Some [0xC0 + c div 64, 0x80 + c mod 64]
      else if c < 0x10000 then
        (if is_surrogate c then None
         else Some [0xE0 + c div 4096, 0x80 + c div 64 mod 64, 0x80 + c mod 64])
      else if c < 0x110000 then
        Some [0xF0 + c div 262144, 0x80 + c div 4096 mod 64,
              0x80 + c div 64 mod 64, 0x80 + c mod 64]
      else None)"

fun encode_units :: "str \<Rightarrow> nat list option" where
  "encode_units [] = Some []"
| "encode_units (c # cs) =
     (case encode_code_point c of
        None \<Rightarrow> None
      | Some us \<Rightarrow> (case encode_units cs of None \<Rightarrow> None | Some rest \<Rightarrow> Some (us @ rest)))"

definition str_encode_utf8 :: "str \<Rightarrow> bytes option" where
  "str_encode_utf8 s = map_option (map of_nat) (encode_units s)"

definition is_cont :: "nat \<Rightarrow> bool" where
  "is_cont b \<longleftrightarrow> 0x80 \<le> b \<and> b \<le> 0xBF"

definition cp2 :: "nat \<Rightarrow> nat \<Rightarrow> nat" where
  "cp2 b0 b1 = (b0 - 0xC0) * 64 + (b1 - 0x80)"
definition cp3 :: "nat \<Rightarrow> nat \<Rightarrow> nat \<Rightarrow> nat" where
  "cp3 b0 b1 b2 = (b0 - 0xE0) * 4096 + (b1 - 0x80) * 64 + (b2 - 0x80)"
definition cp4 :: "nat \<Rightarrow> nat \<Rightarrow> nat \<Rightarrow> nat \<Rightarrow> nat" where
  "cp4 b0 b1 b2 b3 =
     (b0 - 0xF0) * 262144 + (b1 - 0x80) * 4096 + (b2 - 0x80) * 64 + (b3 - 0x80)"

definition decode_code_point :: "nat list \<Rightarrow> (nat \<times> nat list) option" where
  "decode_code_point bs =
     (case bs of
        [] \<Rightarrow> None
      | b0 # r0 \<Rightarrow>
          if b0 < 0x80 then Some (b0, r0)
          else if b0 < 0xC2 then None
          else if b0 < 0xE0 then
            (case r0 of
               b1 # r \<Rightarrow> if is_cont b1 then Some (cp2 b0 b1, r) else None
             | _ \<Rightarrow> None)
          else if b0 < 0xF0 then
            (case r0 of
               b1 # b2 # r \<Rightarrow>
                 if is_cont b1 \<and> is_cont b2 \<and> 0x800 \<le> cp3 b0 b1 b2
                    \<and> \<not> is_surrogate (cp3 b0 b1 b2)
                 then Some (cp3 b0 b1 b2, r) else None
             | _ \<Rightarrow> None)
          else if b0 < 0xF5 then
            (case r0 of
               b1 # b2 # b3 # r \<Rightarrow>
                 if is_cont b1 \<and> is_cont b2 \<and> is_cont b3 \<and> 0x10000 \<le> cp4 b0 b1 b2 b3
                    \<and> cp4 b0 b1 b2 b3 < 0x110000
                 then Some (cp4 b0 b1 b2 b3, r) else None
             | _ \<Rightarrow> None)
          else None)"

lemma decode_code_point_shorter:
  "decode_code_point bs = Some (c, r) \<Longrightarrow> length r < length bs"
  unfolding decode_code_point_def
  by (auto split: list.splits if_splits)

function decode_units :: "nat list \<Rightarrow> str option" where
  "decode_units bs =
     (if bs = [] then Some []
      else (case decode_code_point bs of
              None \<Rightarrow> None
            | Some (c, r) \<Rightarrow> map_option ((#) c) (decode_units r)))"
  by pat_completeness auto
termination
  by (relation "measure length") (auto dest: decode_code_point_shorter)

declare decode_units.simps [simp del]

definition bytes_decode_utf8 :: "bytes \<Rightarrow> str option" where
  "bytes_decode_utf8 bs = decode_units (map unat bs)"

subsection \<open>Decoding undoes encoding\<close>

lemma dec_enc1: "c < 0x80 \<Longrightarrow> decode_code_point (c # rest) = Some (c, rest)"
  by (simp add: decode_code_point_def)

lemma dec_enc2:
  assumes "0x80 \<le> c" "c < 0x800"
  shows "decode_code_point ((0xC0 + c div 64) # (0x80 + c mod 64) # rest) = Some (c, rest)"
proof -
  have "2 \<le> c div 64" using assms by simp
  moreover have "c div 64 < 32" using assms by simp
  ultimately show ?thesis
    by (simp add: decode_code_point_def is_cont_def cp2_def)
qed
lemma digit_shift: "(q::nat) div 64 * (64 * k) + q mod 64 * k = q * k"
proof -
  have "(q div 64 * 64 + q mod 64) * k = q * k" by simp
  then show ?thesis by (simp only: add_mult_distrib mult.assoc)
qed

lemma split3: "(c::nat) div 4096 * 4096 + c div 64 mod 64 * 64 + c mod 64 = c"
proof -
  have "c div 4096 = c div 64 div 64" by (simp add: div_mult2_eq)
  moreover have "c div 64 div 64 * 4096 + c div 64 mod 64 * 64 = c div 64 * 64"
    using digit_shift[of "c div 64" 64] by simp
  ultimately show ?thesis by simp
qed

lemma split4:
  "(c::nat) div 262144 * 262144 + c div 4096 mod 64 * 4096 + c div 64 mod 64 * 64 + c mod 64 = c"
proof -
  have "c div 262144 = c div 4096 div 64" by (simp add: div_mult2_eq)
  moreover have "c div 4096 div 64 * 262144 + c div 4096 mod 64 * 4096 = c div 4096 * 4096"
    using digit_shift[of "c div 4096" 4096] by simp
  ultimately have "c div 262144 * 262144 + c div 4096 mod 64 * 4096 = c div 4096 * 4096"
    by simp
  then show ?thesis using split3[of c] by simp
qed

lemma cp3_encoded:
  "cp3 (0xE0 + c div 4096) (0x80 + c div 64 mod 64) (0x80 + c mod 64) = c"
  by (simp add: cp3_def split3)

lemma cp4_encoded:
  "cp4 (0xF0 + c div 262144) (0x80 + c div 4096 mod 64) (0x80 + c div 64 mod 64) (0x80 + c mod 64) = c"
  by (simp add: cp4_def split4)

lemma is_cont_encoded: "is_cont (0x80 + n mod 64)"
  by (simp add: is_cont_def)

lemma dec_enc3:
  assumes "0x800 \<le> c" "c < 0x10000" "\<not> is_surrogate c"
  shows "decode_code_point ((0xE0 + c div 4096) # (0x80 + c div 64 mod 64)
           # (0x80 + c mod 64) # rest) = Some (c, rest)"
proof -
  have lt: "c div 4096 < 16" using assms by simp
  show ?thesis using assms lt
    by (simp add: decode_code_point_def is_cont_encoded cp3_encoded)
qed

lemma dec_enc4:
  assumes "0x10000 \<le> c" "c < 0x110000"
  shows "decode_code_point ((0xF0 + c div 262144) # (0x80 + c div 4096 mod 64)
           # (0x80 + c div 64 mod 64) # (0x80 + c mod 64) # rest) = Some (c, rest)"
proof -
  have lt: "c div 262144 < 5" using assms by simp
  show ?thesis using assms lt
    by (simp add: decode_code_point_def is_cont_encoded cp4_encoded)
qed
lemma decode_encoded_code_point:
  assumes "encode_code_point c = Some us"
  shows "decode_code_point (us @ rest) = Some (c, rest)"
proof -
  consider "c < 0x80" | "0x80 \<le> c" "c < 0x800" | "0x800 \<le> c" "c < 0x10000"
    | "0x10000 \<le> c" "c < 0x110000" | "0x110000 \<le> c" by linarith
  then show ?thesis
  proof cases
    case 1
    then have "us = [c]" using assms by (simp add: encode_code_point_def)
    then show ?thesis using dec_enc1[OF 1] by simp
  next
    case 2
    then have "us = [0xC0 + c div 64, 0x80 + c mod 64]"
      using assms by (simp add: encode_code_point_def)
    then show ?thesis using dec_enc2[OF 2] by simp
  next
    case 3
    then have ns: "\<not> is_surrogate c"
      using assms by (simp add: encode_code_point_def split: if_splits)
    with 3 have "us = [0xE0 + c div 4096, 0x80 + c div 64 mod 64, 0x80 + c mod 64]"
      using assms by (simp add: encode_code_point_def)
    then show ?thesis using dec_enc3[OF 3 ns] by simp
  next
    case 4
    then have "us = [0xF0 + c div 262144, 0x80 + c div 4096 mod 64,
              0x80 + c div 64 mod 64, 0x80 + c mod 64]"
      using assms by (simp add: encode_code_point_def)
    then show ?thesis using dec_enc4[OF 4] by simp
  next
    case 5 then show ?thesis using assms by (simp add: encode_code_point_def)
  qed
qed

lemma encode_code_point_nonempty: "encode_code_point c = Some us \<Longrightarrow> us \<noteq> []"
  by (auto simp: encode_code_point_def split: if_splits)

lemma encode_code_point_bytes: "encode_code_point c = Some us \<Longrightarrow> \<forall>u\<in>set us. u < 256"
  by (auto simp: encode_code_point_def split: if_splits)

lemma decode_units_encode_units:
  "encode_units s = Some us \<Longrightarrow> decode_units us = Some s"
proof (induction s arbitrary: us)
  case Nil
  then show ?case by (simp add: decode_units.simps)
next
  case (Cons c cs)
  from Cons.prems obtain e rest where e: "encode_code_point c = Some e"
    and r: "encode_units cs = Some rest" and us: "us = e @ rest"
    by (auto split: option.splits)
  have ne: "e @ rest \<noteq> []" using encode_code_point_nonempty[OF e] by simp
  have "decode_units (e @ rest) = map_option ((#) c) (decode_units rest)"
    by (subst decode_units.simps)
       (simp only: ne if_False decode_encoded_code_point[OF e, of rest] option.case prod.case)
  then show ?case using Cons.IH[OF r] us by simp
qed

lemma encode_units_bytes: "encode_units s = Some us \<Longrightarrow> \<forall>u\<in>set us. u < 256"
proof (induction s arbitrary: us)
  case Nil then show ?case by simp
next
  case (Cons c cs)
  from Cons.prems obtain e rest where e: "encode_code_point c = Some e"
    and r: "encode_units cs = Some rest" and us: "us = e @ rest"
    by (auto split: option.splits)
  show ?case using encode_code_point_bytes[OF e] Cons.IH[OF r] us by auto
qed

lemma map_unat_of_nat: "\<forall>u\<in>set us. u < 256 \<Longrightarrow> map unat (map of_nat us :: bytes) = us"
  by (induction us) (simp_all add: unat_of_nat)

lemma bytes_decode_utf8_encode:
  "str_encode_utf8 s = Some bs \<Longrightarrow> bytes_decode_utf8 bs = Some s"
proof -
  assume "str_encode_utf8 s = Some bs"
  then obtain us where us: "encode_units s = Some us" and bs: "bs = map of_nat us"
    by (auto simp: str_encode_utf8_def)
  have "map unat bs = us" using encode_units_bytes[OF us] bs by (simp only: map_unat_of_nat)
  then show ?thesis using decode_units_encode_units[OF us] by (simp add: bytes_decode_utf8_def)
qed

subsection \<open>Encoding undoes decoding\<close>

lemma digits2:
  fixes h l :: nat
  assumes "l < 64"
  shows "(h * 64 + l) div 64 = h" "(h * 64 + l) mod 64 = l"
  using assms by simp_all

lemma digits3:
  fixes h m l :: nat
  assumes "m < 64" "l < 64"
  shows "(h * 4096 + m * 64 + l) div 4096 = h"
    "(h * 4096 + m * 64 + l) div 64 mod 64 = m"
    "(h * 4096 + m * 64 + l) mod 64 = l"
proof -
  have e: "h * 4096 + m * 64 + l = (h * 64 + m) * 64 + l" by simp
  have d: "(h * 4096 + m * 64 + l) div 64 = h * 64 + m"
    unfolding e using assms(2) by (rule digits2(1))
  show "(h * 4096 + m * 64 + l) mod 64 = l"
    unfolding e using assms(2) by (rule digits2(2))
  show "(h * 4096 + m * 64 + l) div 64 mod 64 = m"
    unfolding d using assms(1) by (rule digits2(2))
  have "(h * 4096 + m * 64 + l) div 4096 = (h * 4096 + m * 64 + l) div 64 div 64"
    by (simp add: div_mult2_eq)
  also have "\<dots> = h" unfolding d using assms(1) by (rule digits2(1))
  finally show "(h * 4096 + m * 64 + l) div 4096 = h" .
qed

lemma digits4:
  fixes h m n l :: nat
  assumes "m < 64" "n < 64" "l < 64"
  shows "(h * 262144 + m * 4096 + n * 64 + l) div 262144 = h"
    "(h * 262144 + m * 4096 + n * 64 + l) div 4096 mod 64 = m"
    "(h * 262144 + m * 4096 + n * 64 + l) div 64 mod 64 = n"
    "(h * 262144 + m * 4096 + n * 64 + l) mod 64 = l"
proof -
  have e: "h * 262144 + m * 4096 + n * 64 + l = (h * 64 + m) * 4096 + n * 64 + l" by simp
  have d: "(h * 262144 + m * 4096 + n * 64 + l) div 4096 = h * 64 + m"
    unfolding e using assms(2,3) by (rule digits3(1))
  show "(h * 262144 + m * 4096 + n * 64 + l) div 64 mod 64 = n"
    unfolding e using assms(2,3) by (rule digits3(2))
  show "(h * 262144 + m * 4096 + n * 64 + l) mod 64 = l"
    unfolding e using assms(2,3) by (rule digits3(3))
  show "(h * 262144 + m * 4096 + n * 64 + l) div 4096 mod 64 = m"
    unfolding d using assms(1) by (rule digits2(2))
  have "(h * 262144 + m * 4096 + n * 64 + l) div 262144
          = (h * 262144 + m * 4096 + n * 64 + l) div 4096 div 64"
    by (simp add: div_mult2_eq)
  also have "\<dots> = h" unfolding d using assms(1) by (rule digits2(1))
  finally show "(h * 262144 + m * 4096 + n * 64 + l) div 262144 = h" .
qed

lemma is_cont_offset: "is_cont b \<Longrightarrow> \<exists>l<64. b = 0x80 + l"
  by (rule exI[of _ "b - 0x80"]) (auto simp: is_cont_def)

lemma enc_dec1: "b0 < 0x80 \<Longrightarrow> encode_code_point b0 = Some [b0]"
  by (simp add: encode_code_point_def)

lemma enc_dec2:
  assumes "0xC2 \<le> b0" "b0 < 0xE0" "is_cont b1"
  shows "encode_code_point (cp2 b0 b1) = Some [b0, b1]"
proof -
  from assms(3) obtain l where l: "l < 64" "b1 = 0x80 + l"
    using is_cont_offset by blast
  define h where "h = b0 - 0xC0"
  have h: "b0 = 0xC0 + h" "2 \<le> h" "h < 32" using assms(1,2) by (simp_all add: h_def)
  have c: "cp2 b0 b1 = h * 64 + l" by (simp add: cp2_def h l)
  have lo: "\<not> h * 64 + l < 0x80" using h(2) by simp
  have hi: "h * 64 + l < 0x800" using h(3) l(1) by simp
  show ?thesis
    unfolding c encode_code_point_def
    by (simp only: lo hi if_False if_True digits2[OF l(1)] h(1) l(2))
qed

lemma enc_dec3:
  assumes "0xE0 \<le> b0" "b0 < 0xF0" "is_cont b1" "is_cont b2"
    and "0x800 \<le> cp3 b0 b1 b2" "\<not> is_surrogate (cp3 b0 b1 b2)"
  shows "encode_code_point (cp3 b0 b1 b2) = Some [b0, b1, b2]"
proof -
  from assms(3) obtain m where m: "m < 64" "b1 = 0x80 + m"
    using is_cont_offset by blast
  from assms(4) obtain l where l: "l < 64" "b2 = 0x80 + l"
    using is_cont_offset by blast
  define h where "h = b0 - 0xE0"
  have h: "b0 = 0xE0 + h" "h < 16" using assms(1,2) by (simp_all add: h_def)
  have c: "cp3 b0 b1 b2 = h * 4096 + m * 64 + l" by (simp add: cp3_def h m l)
  have lo: "\<not> h * 4096 + m * 64 + l < 0x80" "\<not> h * 4096 + m * 64 + l < 0x800"
    using assms(5) unfolding c by simp_all
  have hi: "h * 4096 + m * 64 + l < 0x10000" using h(2) m(1) l(1) by simp
  have ns: "\<not> is_surrogate (h * 4096 + m * 64 + l)" using assms(6) unfolding c .
  show ?thesis
    unfolding c encode_code_point_def
    by (simp only: lo hi ns if_False if_True digits3[OF m(1) l(1)] h(1) m(2) l(2))
qed

lemma enc_dec4:
  assumes "0xF0 \<le> b0" "is_cont b1" "is_cont b2" "is_cont b3"
    and "0x10000 \<le> cp4 b0 b1 b2 b3" "cp4 b0 b1 b2 b3 < 0x110000"
  shows "encode_code_point (cp4 b0 b1 b2 b3) = Some [b0, b1, b2, b3]"
proof -
  from assms(2) obtain m where m: "m < 64" "b1 = 0x80 + m"
    using is_cont_offset by blast
  from assms(3) obtain n where n: "n < 64" "b2 = 0x80 + n"
    using is_cont_offset by blast
  from assms(4) obtain l where l: "l < 64" "b3 = 0x80 + l"
    using is_cont_offset by blast
  define h where "h = b0 - 0xF0"
  have h: "b0 = 0xF0 + h" using assms(1) by (simp add: h_def)
  have c: "cp4 b0 b1 b2 b3 = h * 262144 + m * 4096 + n * 64 + l"
    by (simp add: cp4_def h m n l)
  have lo: "\<not> h * 262144 + m * 4096 + n * 64 + l < 0x80"
    "\<not> h * 262144 + m * 4096 + n * 64 + l < 0x800"
    "\<not> h * 262144 + m * 4096 + n * 64 + l < 0x10000"
    using assms(5) unfolding c by simp_all
  have hi: "h * 262144 + m * 4096 + n * 64 + l < 0x110000" using assms(6) unfolding c .
  show ?thesis
    unfolding c encode_code_point_def
    by (simp only: lo hi if_False if_True digits4[OF m(1) n(1) l(1)] h m(2) n(2) l(2))
qed

lemma encode_decoded_code_point:
  assumes "decode_code_point us = Some (c, r)"
  shows "\<exists>e. encode_code_point c = Some e \<and> us = e @ r"
proof (cases us)
  case Nil
  with assms show ?thesis by (simp add: decode_code_point_def)
next
  case (Cons b0 r0)
  consider "b0 < 0x80" | "0x80 \<le> b0" "b0 < 0xC2" | "0xC2 \<le> b0" "b0 < 0xE0"
    | "0xE0 \<le> b0" "b0 < 0xF0" | "0xF0 \<le> b0" "b0 < 0xF5" | "0xF5 \<le> b0"
    by linarith
  then show ?thesis
  proof cases
    case 1
    with assms Cons have "c = b0" "r = r0" by (simp_all add: decode_code_point_def)
    with 1 Cons show ?thesis by (simp add: enc_dec1)
  next
    case 2
    with assms Cons show ?thesis by (simp add: decode_code_point_def)
  next
    case 3
    with assms Cons obtain b1 where r0: "r0 = b1 # r" and cont: "is_cont b1" and c: "c = cp2 b0 b1"
      by (auto simp: decode_code_point_def split: list.splits if_splits)
    show ?thesis using enc_dec2[OF 3 cont] Cons r0 c by simp
  next
    case 4
    with assms Cons obtain b1 b2 where r0: "r0 = b1 # b2 # r" and cont: "is_cont b1" "is_cont b2"
      and c: "c = cp3 b0 b1 b2" and v: "0x800 \<le> cp3 b0 b1 b2" "\<not> is_surrogate (cp3 b0 b1 b2)"
      by (auto simp: decode_code_point_def split: list.splits if_splits)
    show ?thesis using enc_dec3[OF 4 cont v] Cons r0 c by simp
  next
    case 5
    with assms Cons obtain b1 b2 b3 where r0: "r0 = b1 # b2 # b3 # r"
      and cont: "is_cont b1" "is_cont b2" "is_cont b3"
      and c: "c = cp4 b0 b1 b2 b3"
      and v: "0x10000 \<le> cp4 b0 b1 b2 b3" "cp4 b0 b1 b2 b3 < 0x110000"
      by (auto simp: decode_code_point_def split: list.splits if_splits)
    show ?thesis using enc_dec4[OF 5(1) cont v] Cons r0 c by simp
  next
    case 6
    with assms Cons show ?thesis by (simp add: decode_code_point_def)
  qed
qed

lemma encode_units_decode_units:
  "decode_units us = Some s \<Longrightarrow> encode_units s = Some us"
proof (induction us arbitrary: s rule: decode_units.induct)
  case (1 bs)
  show ?case
  proof (cases "bs = []")
    case True
    with "1.prems" show ?thesis by (simp add: decode_units.simps)
  next
    case False
    with "1.prems" obtain c r s' where d: "decode_code_point bs = Some (c, r)"
      and r: "decode_units r = Some s'" and s: "s = c # s'"
      by (subst (asm) decode_units.simps) (auto split: option.splits)
    from encode_decoded_code_point[OF d] obtain e where
      e: "encode_code_point c = Some e" "bs = e @ r" by blast
    have "encode_units s' = Some r" using "1.IH"[OF False d refl r] .
    with e s show ?thesis by simp
  qed
qed

lemma map_of_nat_unat: "map of_nat (map unat bs) = (bs :: bytes)"
  by (induction bs) simp_all

lemma str_encode_utf8_decode:
  "bytes_decode_utf8 bs = Some s \<Longrightarrow> str_encode_utf8 s = Some bs"
proof -
  assume "bytes_decode_utf8 bs = Some s"
  then have "encode_units s = Some (map unat bs)"
    unfolding bytes_decode_utf8_def by (rule encode_units_decode_units)
  then have "str_encode_utf8 s = Some (map of_nat (map unat bs))"
    by (simp add: str_encode_utf8_def)
  then show ?thesis by (simp only: map_of_nat_unat)
qed

section \<open>Base64 and the string operations the script uses\<close>

definition lit :: "string \<Rightarrow> str" where
  "lit s = map of_char s"

definition b64_alphabet :: "nat list" where
  "b64_alphabet = map of_char ''ABCDEFGHIJKLMNOPQRSTUVWXYZabcdefghijklmnopqrstuvwxyz0123456789+/''"

definition b64_char :: "nat \<Rightarrow> nat" where
  "b64_char i = b64_alphabet ! i"

fun b64_units :: "nat list \<Rightarrow> nat list" where
  "b64_units [] = []"
| "b64_units [a] = [b64_char (a div 4), b64_char (a mod 4 * 16), 61, 61]"
| "b64_units [a, b] =
     [b64_char (a div 4), b64_char (a mod 4 * 16 + b div 16), b64_char (b mod 16 * 4), 61]"
| "b64_units (a # b # c # r) =
     b64_char (a div 4) # b64_char (a mod 4 * 16 + b div 16)
       # b64_char (b mod 16 * 4 + c div 64) # b64_char (c mod 64) # b64_units r"

definition b64encode :: "bytes \<Rightarrow> bytes" where
  "b64encode s = map of_nat (b64_units (map unat s))"

definition urlsafe_translate :: "byte \<Rightarrow> byte" where
  "urlsafe_translate b = (if b = 43 then 45 else if b = 47 then 95 else b)"

definition urlsafe_b64encode :: "bytes \<Rightarrow> bytes" where
  "urlsafe_b64encode s = map urlsafe_translate (b64encode s)"

subsection \<open>Python string operations\<close>

definition is_whitespace :: "nat \<Rightarrow> bool" where
  "is_whitespace c \<longleftrightarrow>
     (0x09 \<le> c \<and> c \<le> 0x0D) \<or> (0x1C \<le> c \<and> c \<le> 0x20) \<or> c = 0x85 \<or> c = 0xA0
     \<or> c = 0x1680 \<or> (0x2000 \<le> c \<and> c \<le> 0x200A) \<or> c = 0x2028 \<or> c = 0x2029
     \<or> c = 0x202F \<or> c = 0x205F \<or> c = 0x3000"

definition strip :: "str \<Rightarrow> str" where
  "strip s = rev (dropWhile is_whitespace (rev (dropWhile is_whitespace s)))"

fun join :: "str \<Rightarrow> str list \<Rightarrow> str" where
  "join sep [] = []"
| "join sep [x] = x"
| "join sep (x # y # ys) = x @ sep @ join sep (y # ys)"

function replace_scan :: "str \<Rightarrow> str \<Rightarrow> str \<Rightarrow> str" where
  "replace_scan old new s =
     (if old = [] then s
      else if prefix old s then new @ replace_scan old new (drop (length old) s)
      else (case s of [] \<Rightarrow> [] | c # cs \<Rightarrow> c # replace_scan old new cs))"
  by pat_completeness auto
termination
  by (relation "measure (\<lambda>(old, new, s). length s)") (auto simp: prefix_def)

declare replace_scan.simps [simp del]

definition replace :: "str \<Rightarrow> str \<Rightarrow> str \<Rightarrow> str" where
  "replace s old new =
     (if old = [] then new @ concat (map (\<lambda>c. c # new) s) else replace_scan old new s)"

function decimal :: "nat \<Rightarrow> str" where
  "decimal n = (if n < 10 then [48 + n] else decimal (n div 10) @ [48 + n mod 10])"
  by pat_completeness auto
termination
  by (relation "measure id") auto

declare decimal.simps [simp del]

section \<open>The program\<close>

subsection \<open>Exceptions, the process state and the two collaborators\<close>

text \<open>
  The process state is the file system (text files, by name) and what was printed. A file
  opened with mode \<^verbatim>\<open>'w'\<close> is created or truncated, so writing replaces its contents.
  Text streams are modelled as holding the code points written to them: the encoding of
  a text file and the translation of line ends depend on the platform and are outside
  the model, and so are failures of the file system itself.

  The completion service and the rendering service are parameters: \<open>create\<close> answers a
  chat request with a completion or raises, \<open>urlopen\<close> answers a URL with a response
  body, with \<^verbatim>\<open>urllib.error.HTTPError\<close> (status code and reason), or with any other
  exception.
\<close>

datatype exn =
    UnicodeEncodeError
  | UnicodeDecodeError
  | IndexError
  | AttributeError
  | OtherError str

record world =
  files :: "str \<rightharpoonup> str"
  stdout :: "str list"

definition print :: "str \<Rightarrow> world \<Rightarrow> world" where
  "print s w = w\<lparr>stdout := stdout w @ [s]\<rparr>"

definition write_file :: "str \<Rightarrow> str list \<Rightarrow> world \<Rightarrow> world" where
  "write_file path chunks w = w\<lparr>files := (files w)(path \<mapsto> concat chunks)\<rparr>"

datatype http_outcome =
    Success bytes
  | HTTP_Error nat str
  | Other_Failure str

definition http_error_str :: "nat \<Rightarrow> str \<Rightarrow> str" where
  "http_error_str code msg = lit ''HTTP Error '' @ decimal code @ lit '': '' @ msg"

record prompt_message =
  role :: str
  content :: str

record completion_request =
  model :: str
  messages :: "prompt_message list"
  max_tokens :: nat
  temperature :: "int \<times> int"

record reply_message =
  reply_content :: "str option"

record choice =
  message :: reply_message

record chat_completion =
  choices :: "choice list"

subsection \<open>The generator\<close>

definition nl :: str where
  "nl = [10]"

definition build_prompt :: "str \<Rightarrow> str list \<Rightarrow> str" where
  "build_prompt meeting_summary participant_names =
     nl @ lit ''    Based on the following meeting summary, create a detailed Mermaid flowchart that shows:''
     @ nl @ lit ''    1. The main discussion flow and topics''
     @ nl @ lit ''    2. Key decisions and action items''
     @ nl @ lit ''    3. Participants and their contributions (identify which parts belong to which participant)''
     @ nl @ lit ''    4. Timeline progression of the meeting''
     @ nl @ lit ''    5. Any risks or concerns mentioned''
     @ nl
     @ nl @ lit ''    There are only 2 participants: '' @ join (lit '', '') participant_names @ lit ''.''
     @ nl
     @ nl @ lit ''    Meeting Summary:''
     @ nl @ lit ''    '' @ meeting_summary
     @ nl
     @ nl @ lit ''    Please generate a Mermaid flowchart syntax that can be directly used to render the diagram.''
     @ nl @ lit ''    Use different shapes for different types of nodes (decisions, processes, participants, etc.).''
     @ nl @ lit ''    Make it comprehensive but readable.''
     @ nl
     @ nl @ lit ''    Return only the Mermaid syntax, no additional text or explanations.''
     @ nl @ lit ''    ''"

definition build_request :: "str \<Rightarrow> str list \<Rightarrow> completion_request" where
  "build_request meeting_summary participant_names =
     \<lparr>model = lit ''gpt-4'',
      messages =
        [\<lparr>role = lit ''system'',
          content = lit ''You are a flowchart generation expert. Create detailed, well-structured Mermaid flowcharts from meeting summaries.''\<rparr>,
         \<lparr>role = lit ''user'', content = build_prompt meeting_summary participant_names\<rparr>],
      max_tokens = 2000,
      temperature = (7, -1)\<rparr>"

definition generate_meeting_flowchart ::
  "(completion_request \<Rightarrow> exn + chat_completion) \<Rightarrow> str \<Rightarrow> str list \<Rightarrow> exn + str" where
  "generate_meeting_flowchart create meeting_summary participant_names =
     (case create (build_request meeting_summary participant_names) of
        Inl e \<Rightarrow> Inl e
      | Inr response \<Rightarrow>
          (case choices response of
             [] \<Rightarrow> Inl IndexError
           | c # _ \<Rightarrow>
               (case reply_content (message c) of
                  None \<Rightarrow> Inl AttributeError
                | Some text \<Rightarrow> Inr (strip text))))"

subsection \<open>The renderer\<close>

definition render_url :: "str \<Rightarrow> str" where
  "render_url encoded_mermaid = lit ''https://kroki.io/mermaid/svg/'' @ encoded_mermaid"

definition render_mermaid_to_svg ::
  "(str \<Rightarrow> http_outcome) \<Rightarrow> str \<Rightarrow> str \<Rightarrow> world \<Rightarrow> world \<times> exn option" where
  "render_mermaid_to_svg urlopen mermaid_code output_file w =
     (case str_encode_utf8 mermaid_code of
        None \<Rightarrow> (w, Some UnicodeEncodeError)
      | Some mermaid_bytes \<Rightarrow>
          (case bytes_decode_utf8 (urlsafe_b64encode mermaid_bytes) of
             None \<Rightarrow> (w, Some UnicodeDecodeError)
           | Some encoded_mermaid \<Rightarrow>
               (case urlopen (render_url encoded_mermaid) of
                  Success body \<Rightarrow>
                    (case bytes_decode_utf8 body of
                       None \<Rightarrow> (w, Some UnicodeDecodeError)
                     | Some svg_content \<Rightarrow>
                         (let w1 = write_file output_file [svg_content] w
                          in (print (nl @ lit ''SVG diagram saved to '' @ [39] @ output_file @ [39]) w1,
                              None)))
                | HTTP_Error code msg \<Rightarrow>
                    (let w1 = print (lit ''Error rendering SVG: '' @ http_error_str code msg) w;
                         w2 = print (lit ''Falling back to saving Mermaid code as text file...'') w1;
                         text_file = replace output_file (lit ''.svg'') (lit ''.mermaid'');
                         w3 = write_file text_file [mermaid_code] w2;
                         w4 = print (lit ''Mermaid code saved to '' @ [39] @ text_file @ [39]) w3
                     in (print (lit ''You can copy this code to https://mermaid.live to render the diagram manually.'') w4,
                         None))
                | Other_Failure e \<Rightarrow> (w, Some (OtherError e)))))"

subsection \<open>The script\<close>

definition participant_names :: "str list" where
  "participant_names = [lit ''Alex (Project Manager)'', lit ''Sarah (Lead Developer)'']"

definition meeting_summary_parts :: "str list" where
  \<open>meeting_summary_parts =
     [lit ''0-10s: Alex opens the meeting by greeting Sarah and stating the goal: to improve the login process based on user feedback about slow times and confusing resets.'',
      lit ''10-20s: Sarah agrees and suggests simplifying the steps, like adding a "remember me" option without extra complications.'',
      lit ''20-30s: Alex asks about priorities, mentioning integrating social media logins like Google or Apple.'',
      lit ''30-40s: Sarah prioritizes that and better error messages, estimating it could take 5-7 days to develop.'',
      lit ''40-50s: Alex brings up potential risks, such as changes from third-party providers affecting the social logins.'',
      lit ''50-60s: Sarah notes they'll monitor those updates closely and suggests a mid-week check-in to track progress.'',
      lit ''60-70s: Alex assigns action items: Sarah to start coding the "remember me" feature soon, and himself to check API docs.'',
      lit ''70-80s: Sarah confirms she's on it and asks if the design needs any tweaks for mobile.'',
      lit ''80-90s: Alex says the current wireframes look good and user-friendly, no major changes needed.'',
      lit ''90-100s: Sarah wraps up by saying the plan feels solid and they're aligned.'',
      lit ''100-110s: Alex agrees, schedules the next check-in, and ends the call positively.'']\<close>

definition main ::
  "(completion_request \<Rightarrow> exn + chat_completion) \<Rightarrow> (str \<Rightarrow> http_outcome) \<Rightarrow> world
     \<Rightarrow> world \<times> exn option" where
  "main create urlopen w =
     (let meeting_summary = join nl meeting_summary_parts;
          w1 = print (lit ''Generating flowchart from meeting summary...'') w
      in (case generate_meeting_flowchart create meeting_summary participant_names of
            Inl e \<Rightarrow> (w1, Some e)
          | Inr flowchart_code \<Rightarrow>
              (let w2 = print (nl @ lit ''Generated Mermaid Flowchart:'') w1;
                   w3 = print (replicate 50 61) w2;
                   w4 = print flowchart_code w3;
                   w5 = print (replicate 50 61) w4;
                   w6 = write_file (lit ''meeting_flowchart.md'')
                          [lit ''# Meeting Flowchart'' @ nl @ nl,
                           lit ''```mermaid'' @ nl,
                           flowchart_code,
                           nl @ lit ''```'' @ nl] w5;
                   w7 = print (nl @ lit ''Flowchart saved to '' @ [39] @ lit ''meeting_flowchart.md'' @ [39]) w6
               in render_mermaid_to_svg urlopen flowchart_code (lit ''meeting_flowchart.svg'') w7)))"

section \<open>The prompt names both participants and carries the transcript\<close>

lemma sublist_here: "sublist xs (xs @ zs)"
  by (rule sublist_append_rightI)

lemma sublist_skip: "sublist xs zs \<Longrightarrow> sublist xs (ys @ zs)"
  by (auto simp: sublist_def) (metis append.assoc)

lemma prompt_has_summary: "sublist s (build_prompt s names)"
  unfolding build_prompt_def
  by (rule sublist_here | rule sublist_skip)+

lemma prompt_has_first_name: "sublist a (build_prompt s [a, b])"
  unfolding build_prompt_def join.simps append_assoc
  by (rule sublist_here | rule sublist_skip)+

lemma prompt_has_second_name: "sublist b (build_prompt s [a, b])"
  unfolding build_prompt_def join.simps append_assoc
  by (rule sublist_here | rule sublist_skip)+

lemma request_user_prompt:
  "map content (messages (build_request s names)) =
     [lit ''You are a flowchart generation expert. Create detailed, well-structured Mermaid flowcharts from meeting summaries.'',
      build_prompt s names]"
  by (simp add: build_request_def)

text \<open>
  Claim C5. For every transcript and every list of exactly two participant names, the
  prompt built by \<open>generate_meeting_flowchart\<close> contains the first name, the second
  name and the whole transcript as contiguous substrings, and this prompt is the content
  of the user message of the request sent to the completion service.
\<close>

theorem prompt_contains_names_and_transcript:
  assumes "length names = 2"
  shows "sublist (names ! 0) (build_prompt s names)
       \<and> sublist (names ! 1) (build_prompt s names)
       \<and> sublist s (build_prompt s names)
       \<and> content (messages (build_request s names) ! 1) = build_prompt s names"
proof -
  from assms obtain a b where n: "names = [a, b]"
    by (cases names; cases "tl names"; auto)
  show ?thesis unfolding n
    using prompt_has_first_name[of a s b] prompt_has_second_name[of b s a] prompt_has_summary[of s "[a, b]"]
    by (simp add: build_request_def)
qed

theorem prompt_contains_names_and_transcript_witness:
  "length [lit ''Al'', lit ''Bo''] = 2
   \<and> sublist (lit ''Al'') (build_prompt (lit ''hello'') [lit ''Al'', lit ''Bo''])
   \<and> sublist (lit ''Bo'') (build_prompt (lit ''hello'') [lit ''Al'', lit ''Bo''])
   \<and> sublist (lit ''hello'') (build_prompt (lit ''hello'') [lit ''Al'', lit ''Bo''])"
  using prompt_contains_names_and_transcript[of "[lit ''Al'', lit ''Bo'']" "lit ''hello''"]
  by simp

section \<open>The generator returns the trimmed reply\<close>

text \<open>
  \<^verbatim>\<open>str.strip()\<close> removes the longest whitespace prefix and suffix: what it cuts
  off is whitespace only, and what is left neither starts nor ends with whitespace.
\<close>

lemma strip_decomposition:
  "\<exists>l r. t = l @ strip t @ r \<and> list_all is_whitespace l \<and> list_all is_whitespace r"
proof -
  define m where "m = dropWhile is_whitespace t"
  have t: "t = takeWhile is_whitespace t @ m"
    by (simp add: m_def)
  have "m = rev (takeWhile is_whitespace (rev m) @ dropWhile is_whitespace (rev m))"
    by (simp only: takeWhile_dropWhile_id rev_rev_ident)
  also have "\<dots> = rev (dropWhile is_whitespace (rev m)) @ rev (takeWhile is_whitespace (rev m))"
    by (simp only: rev_append)
  finally have m: "m = strip t @ rev (takeWhile is_whitespace (rev m))"
    by (simp only: strip_def m_def)
  have l: "list_all is_whitespace (takeWhile is_whitespace t)"
    by (simp add: list_all_iff) (meson set_takeWhileD)
  have r: "list_all is_whitespace (rev (takeWhile is_whitespace (rev m)))"
    by (simp add: list_all_iff) (meson set_takeWhileD)
  from t m have "t = takeWhile is_whitespace t @ strip t @ rev (takeWhile is_whitespace (rev m))"
    by simp
  with l r show ?thesis by blast
qed

lemma strip_last: "strip t \<noteq> [] \<Longrightarrow> \<not> is_whitespace (last (strip t))"
  by (simp add: strip_def last_rev hd_dropWhile)

lemma dropWhile_rev_hd:
  "dropWhile P (rev xs) \<noteq> [] \<Longrightarrow> last (dropWhile P (rev xs)) = hd xs"
  by (induction xs) (auto simp: dropWhile_append split: if_splits)

lemma strip_hd: "strip t \<noteq> [] \<Longrightarrow> \<not> is_whitespace (hd (strip t))"
proof -
  assume ne: "strip t \<noteq> []"
  define m where "m = dropWhile is_whitespace t"
  have d: "dropWhile is_whitespace (rev m) \<noteq> []" using ne by (simp add: strip_def m_def)
  then have "m \<noteq> []" by auto
  have "hd (strip t) = last (dropWhile is_whitespace (rev m))"
    using d by (simp add: strip_def m_def hd_rev)
  also have "\<dots> = hd m" using d by (rule dropWhile_rev_hd)
  finally show ?thesis using \<open>m \<noteq> []\<close> by (simp add: m_def hd_dropWhile)
qed

text \<open>
  Claim C6. Whenever the completion service answers with a completion whose first choice
  carries a text, \<open>generate_meeting_flowchart\<close> returns exactly that text with its
  leading and trailing whitespace removed: the reply is the result between two runs of
  whitespace, the result has no whitespace at either end, and nothing is wrapped around
  it.
\<close>

theorem generate_returns_trimmed_reply:
  assumes "create (build_request s names) = Inr response"
    and "choices response = c # cs"
    and "reply_content (message c) = Some reply"
  shows "generate_meeting_flowchart create s names = Inr (strip reply)
       \<and> (\<exists>l r. reply = l @ strip reply @ r \<and> list_all is_whitespace l \<and> list_all is_whitespace r)
       \<and> (strip reply = [] \<or> (\<not> is_whitespace (hd (strip reply)) \<and> \<not> is_whitespace (last (strip reply))))"
  using assms strip_decomposition[of reply] strip_hd[of reply] strip_last[of reply]
  by (auto simp: generate_meeting_flowchart_def)

theorem generate_returns_trimmed_reply_witness:
  "generate_meeting_flowchart
     (\<lambda>_. Inr \<lparr>choices = [\<lparr>message = \<lparr>reply_content = Some (lit '' graph TD '')\<rparr>\<rparr>]\<rparr>)
     (lit ''hello'') [lit ''Al'', lit ''Bo'']
   = Inr (lit ''graph TD'')"
  using generate_returns_trimmed_reply[of "\<lambda>_. Inr \<lparr>choices = [\<lparr>message = \<lparr>reply_content = Some (lit '' graph TD '')\<rparr>\<rparr>]\<rparr>"
      "lit ''hello''" "[lit ''Al'', lit ''Bo'']" "\<lparr>choices = [\<lparr>message = \<lparr>reply_content = Some (lit '' graph TD '')\<rparr>\<rparr>]\<rparr>"
      "\<lparr>message = \<lparr>reply_content = Some (lit '' graph TD '')\<rparr>\<rparr>" "[]" "lit '' graph TD ''"]
  by (simp add: strip_def is_whitespace_def lit_def)

section \<open>The request URL\<close>

text \<open>
  Lines 54 and 55 of the script, as a function of the description text: the text is
  encoded as UTF-8, the bytes as URL-safe base64, and the base64 bytes are read back as
  text (they are ASCII, so this decoding cannot fail).
\<close>

definition encoded_mermaid :: "str \<Rightarrow> exn + str" where
  "encoded_mermaid mermaid_code =
     (case str_encode_utf8 mermaid_code of
        None \<Rightarrow> Inl UnicodeEncodeError
      | Some mermaid_bytes \<Rightarrow>
          (case bytes_decode_utf8 (urlsafe_b64encode mermaid_bytes) of
             None \<Rightarrow> Inl UnicodeDecodeError
           | Some encoded \<Rightarrow> Inr encoded))"

lemma b64_alphabet_ascii: "\<forall>c\<in>set b64_alphabet. c < 128"
  by (simp add: b64_alphabet_def)

lemma b64_alphabet_length: "length b64_alphabet = 64"
  by (simp add: b64_alphabet_def)

lemma b64_char_ascii: "i < 64 \<Longrightarrow> b64_char i < 128"
  using b64_alphabet_ascii nth_mem[of i b64_alphabet]
  by (simp add: b64_char_def b64_alphabet_length)

lemma sextets:
  fixes a b c :: nat
  assumes "a < 256" "b < 256" "c < 256"
  shows "a div 4 < 64" "a mod 4 * 16 + b div 16 < 64" "b mod 16 * 4 + c div 64 < 64"
    "c mod 64 < 64" "a mod 4 * 16 < 64" "b mod 16 * 4 < 64"
proof -
  have "a mod 4 < 4" "b mod 16 < 16" "b div 16 < 16" "c div 64 < 4"
    using assms by simp_all
  then show "a mod 4 * 16 + b div 16 < 64" "b mod 16 * 4 + c div 64 < 64"
    "a mod 4 * 16 < 64" "b mod 16 * 4 < 64"
    by linarith+
  show "a div 4 < 64" using assms by simp
  show "c mod 64 < 64" by simp
qed

lemma b64_units_ascii:
  "\<forall>u\<in>set us. u < 256 \<Longrightarrow> \<forall>v\<in>set (b64_units us). v < 128"
proof (induction us rule: b64_units.induct)
  case 1
  then show ?case by simp
next
  case (2 a)
  then show ?case using sextets[of a 0 0] by (simp add: b64_char_ascii)
next
  case (3 a b)
  then show ?case using sextets[of a b 0] by (simp add: b64_char_ascii)
next
  case (4 a b c r)
  then show ?case using sextets[of a b c] by (simp add: b64_char_ascii)
qed

lemma decode_units_ascii: "\<forall>u\<in>set us. u < 128 \<Longrightarrow> decode_units us = Some us"
proof (induction us)
  case Nil
  then show ?case by (simp add: decode_units.simps)
next
  case (Cons u us)
  then have "decode_code_point (u # us) = Some (u, us)"
    by (simp add: decode_code_point_def)
  then show ?case using Cons by (subst decode_units.simps) simp
qed

lemma unat_urlsafe_translate_ascii:
  "v < 128 \<Longrightarrow> unat (urlsafe_translate (of_nat v)) < 128"
  by (auto simp: urlsafe_translate_def unat_of_nat)

lemma unat_byte_less: "unat (b :: byte) < 256"
  using unsigned_less[of b] by simp

lemma urlsafe_b64encode_ascii: "\<forall>u\<in>set (map unat (urlsafe_b64encode bs)). u < 128"
proof -
  have "\<forall>v\<in>set (b64_units (map unat bs)). v < 128"
    by (rule b64_units_ascii) (simp add: unat_byte_less)
  then show ?thesis
    by (auto simp: urlsafe_b64encode_def b64encode_def unat_urlsafe_translate_ascii)
qed

lemma decode_urlsafe_b64encode:
  "bytes_decode_utf8 (urlsafe_b64encode bs) = Some (map unat (urlsafe_b64encode bs))"
  unfolding bytes_decode_utf8_def
  by (rule decode_units_ascii) (rule urlsafe_b64encode_ascii)

lemma encoded_mermaid_eq:
  "encoded_mermaid code =
     (case str_encode_utf8 code of
        None \<Rightarrow> Inl UnicodeEncodeError
      | Some bs \<Rightarrow> Inr (map unat (urlsafe_b64encode bs)))"
  by (simp add: encoded_mermaid_def decode_urlsafe_b64encode split: option.split)

section \<open>What one call of the renderer does\<close>

lemma render_cases:
  "render_mermaid_to_svg urlopen mermaid_code output_file w =
     (case encoded_mermaid mermaid_code of
        Inl e \<Rightarrow> (w, Some e)
      | Inr payload \<Rightarrow>
          (case urlopen (render_url payload) of
             Success body \<Rightarrow>
               (case bytes_decode_utf8 body of
                  None \<Rightarrow> (w, Some UnicodeDecodeError)
                | Some svg_content \<Rightarrow>
                    (print (nl @ lit ''SVG diagram saved to '' @ [39] @ output_file @ [39])
                       (write_file output_file [svg_content] w), None))
           | HTTP_Error code msg \<Rightarrow>
               (print (lit ''You can copy this code to https://mermaid.live to render the diagram manually.'')
                  (print (lit ''Mermaid code saved to '' @ [39]
                            @ replace output_file (lit ''.svg'') (lit ''.mermaid'') @ [39])
                     (write_file (replace output_file (lit ''.svg'') (lit ''.mermaid'')) [mermaid_code]
                        (print (lit ''Falling back to saving Mermaid code as text file...'')
                           (print (lit ''Error rendering SVG: '' @ http_error_str code msg) w)))),
                None)
           | Other_Failure e \<Rightarrow> (w, Some (OtherError e))))"
proof (cases "str_encode_utf8 mermaid_code")
  case None
  then show ?thesis by (simp add: render_mermaid_to_svg_def encoded_mermaid_eq)
next
  case (Some bs)
  show ?thesis
  proof (cases "urlopen (render_url (map unat (urlsafe_b64encode bs)))")
    case (Success body)
    then show ?thesis using Some
      by (cases "bytes_decode_utf8 body")
         (simp_all add: render_mermaid_to_svg_def encoded_mermaid_eq decode_urlsafe_b64encode)
  next
    case (HTTP_Error code msg)
    then show ?thesis using Some
      by (simp add: render_mermaid_to_svg_def encoded_mermaid_eq decode_urlsafe_b64encode Let_def)
  next
    case (Other_Failure e)
    then show ?thesis using Some
      by (simp add: render_mermaid_to_svg_def encoded_mermaid_eq decode_urlsafe_b64encode)
  qed
qed

lemma files_print [simp]: "files (print s w) = files w"
  by (simp add: print_def)

lemma files_write_file [simp]: "files (write_file p chunks w) = (files w)(p \<mapsto> concat chunks)"
  by (simp add: write_file_def)

text \<open>
  Claim C10. When the rendering service answers the request with a success response
  whose body is not valid UTF-8, the call raises \<^verbatim>\<open>UnicodeDecodeError\<close> and leaves the
  process state as it was, so neither the image file nor the fallback file is written;
  and when the body is valid UTF-8, what is written to the output file is the decoded
  text of the body.
\<close>

theorem render_invalid_utf8_body_raises:
  assumes "encoded_mermaid mermaid_code = Inr payload"
    and "urlopen (render_url payload) = Success body"
  shows "(bytes_decode_utf8 body = None \<longrightarrow>
            render_mermaid_to_svg urlopen mermaid_code output_file w = (w, Some UnicodeDecodeError))
       \<and> (\<forall>svg_content. bytes_decode_utf8 body = Some svg_content \<longrightarrow>
            snd (render_mermaid_to_svg urlopen mermaid_code output_file w) = None
            \<and> files (fst (render_mermaid_to_svg urlopen mermaid_code output_file w))
                = (files w)(output_file \<mapsto> svg_content))"
  using assms by (simp add: render_cases)

lemma encoded_mermaid_A: "encoded_mermaid (lit ''A'') = Inr (lit ''QQ=='')"
  by (simp add: encoded_mermaid_eq str_encode_utf8_def encode_code_point_def lit_def
      urlsafe_b64encode_def b64encode_def b64_char_def b64_alphabet_def urlsafe_translate_def)

lemma decode_FF: "bytes_decode_utf8 [0xFF] = None"
  by (simp add: bytes_decode_utf8_def decode_units.simps decode_code_point_def)

lemma decode_ok: "bytes_decode_utf8 [0x3C, 0x73, 0x76, 0x67, 0x2F, 0x3E] = Some (lit ''<svg/>'')"
  by (simp add: bytes_decode_utf8_def decode_units.simps decode_code_point_def lit_def)

theorem render_invalid_utf8_body_raises_witness:
  "render_mermaid_to_svg (\<lambda>_. Success [0xFF]) (lit ''A'') (lit ''o.svg'')
     \<lparr>files = Map.empty, stdout = []\<rparr>
   = (\<lparr>files = Map.empty, stdout = []\<rparr>, Some UnicodeDecodeError)"
  using render_invalid_utf8_body_raises[of "lit ''A''" "lit ''QQ==''" "\<lambda>_. Success [0xFF]" "[0xFF]"
      "lit ''o.svg''" "\<lparr>files = Map.empty, stdout = []\<rparr>"]
  by (simp add: encoded_mermaid_A decode_FF)

text \<open>
  Claim C7. The call raises exactly when a failure other than an HTTP error occurs: the
  description text cannot be encoded, the request fails with an exception that is not
  \<^verbatim>\<open>HTTPError\<close>, or the body of a success response cannot be decoded. An HTTP error is
  the one failure the call recovers from, and any other exception of the request
  reaches the caller unchanged, with nothing written.
\<close>

theorem render_raises_iff_non_http_failure:
  "(snd (render_mermaid_to_svg urlopen mermaid_code output_file w) \<noteq> None \<longleftrightarrow>
      (case encoded_mermaid mermaid_code of
         Inl e \<Rightarrow> True
       | Inr payload \<Rightarrow>
           (case urlopen (render_url payload) of
              Success body \<Rightarrow> bytes_decode_utf8 body = None
            | HTTP_Error code msg \<Rightarrow> False
            | Other_Failure e \<Rightarrow> True)))
   \<and> (\<forall>payload e. encoded_mermaid mermaid_code = Inr payload
          \<and> urlopen (render_url payload) = Other_Failure e \<longrightarrow>
          render_mermaid_to_svg urlopen mermaid_code output_file w = (w, Some (OtherError e)))
   \<and> (\<forall>payload code msg. encoded_mermaid mermaid_code = Inr payload
          \<and> urlopen (render_url payload) = HTTP_Error code msg \<longrightarrow>
          snd (render_mermaid_to_svg urlopen mermaid_code output_file w) = None)"
  by (simp add: render_cases split: sum.split http_outcome.split option.split)

theorem render_raises_iff_non_http_failure_witness:
  "render_mermaid_to_svg (\<lambda>_. Other_Failure (lit ''URLError'')) (lit ''A'') (lit ''o.svg'')
     \<lparr>files = Map.empty, stdout = []\<rparr>
   = (\<lparr>files = Map.empty, stdout = []\<rparr>, Some (OtherError (lit ''URLError'')))"
  using render_raises_iff_non_http_failure[of "\<lambda>_. Other_Failure (lit ''URLError'')" "lit ''A''"
      "lit ''o.svg''" "\<lparr>files = Map.empty, stdout = []\<rparr>"]
  by (simp add: encoded_mermaid_A)

lemma snd_render_independent:
  "snd (render_mermaid_to_svg urlopen mermaid_code output_file w)
     = snd (render_mermaid_to_svg urlopen mermaid_code output_file w')"
  by (simp add: render_cases split: sum.split http_outcome.split option.split)

text \<open>
  Claim C4. A call that returns normally has written exactly one file: either the
  service answered with a success and the output file now holds the decoded body, or it
  answered with an HTTP error and the fallback file now holds the description text. The
  rest of the file system is as before; started on an empty file system, the call leaves
  exactly one file.
\<close>

theorem render_writes_exactly_one_file:
  assumes "snd (render_mermaid_to_svg urlopen mermaid_code output_file w) = None"
  shows "((\<exists>payload body svg_content.
             encoded_mermaid mermaid_code = Inr payload
             \<and> urlopen (render_url payload) = Success body
             \<and> bytes_decode_utf8 body = Some svg_content
             \<and> files (fst (render_mermaid_to_svg urlopen mermaid_code output_file w))
                 = (files w)(output_file \<mapsto> svg_content))
          \<or> (\<exists>payload code msg.
             encoded_mermaid mermaid_code = Inr payload
             \<and> urlopen (render_url payload) = HTTP_Error code msg
             \<and> files (fst (render_mermaid_to_svg urlopen mermaid_code output_file w))
                 = (files w)(replace output_file (lit ''.svg'') (lit ''.mermaid'') \<mapsto> mermaid_code)))
       \<and> card (dom (files (fst (render_mermaid_to_svg urlopen mermaid_code output_file
                                  (w\<lparr>files := Map.empty\<rparr>))))) = 1"
proof -
  from assms obtain payload where p: "encoded_mermaid mermaid_code = Inr payload"
    by (cases "encoded_mermaid mermaid_code") (simp_all add: render_cases)
  show ?thesis
  proof (cases "urlopen (render_url payload)")
    case (Success body)
    with assms p obtain svg_content where "bytes_decode_utf8 body = Some svg_content"
      by (cases "bytes_decode_utf8 body") (simp_all add: render_cases)
    with p Success show ?thesis by (simp add: render_cases)
  next
    case (HTTP_Error code msg)
    with p show ?thesis by (simp add: render_cases)
  next
    case (Other_Failure e)
    with assms p show ?thesis by (simp add: render_cases)
  qed
qed

theorem render_writes_exactly_one_file_witness:
  "snd (render_mermaid_to_svg (\<lambda>_. Success [0x3C, 0x73, 0x76, 0x67, 0x2F, 0x3E]) (lit ''A'')
       (lit ''o.svg'') \<lparr>files = Map.empty, stdout = []\<rparr>) = None
   \<and> files (fst (render_mermaid_to_svg (\<lambda>_. Success [0x3C, 0x73, 0x76, 0x67, 0x2F, 0x3E]) (lit ''A'')
       (lit ''o.svg'') \<lparr>files = Map.empty, stdout = []\<rparr>))
   = [lit ''o.svg'' \<mapsto> lit ''<svg/>'']"
  using render_writes_exactly_one_file[of "\<lambda>_. Success [0x3C, 0x73, 0x76, 0x67, 0x2F, 0x3E]"
      "lit ''A''" "lit ''o.svg''" "\<lparr>files = Map.empty, stdout = []\<rparr>"]
  by (simp add: render_cases encoded_mermaid_A decode_ok)

section \<open>The name of the fallback file\<close>

text \<open>
  \<^verbatim>\<open>output_file.replace('.svg', '.mermaid')\<close> replaces every occurrence of
  \<^verbatim>\<open>.svg\<close>, scanning from the left, wherever it stands in the name.
\<close>

lemma replace_scan_Nil: "old \<noteq> [] \<Longrightarrow> replace_scan old new [] = []"
  by (subst replace_scan.simps) simp

lemma replace_scan_prefix:
  "old \<noteq> [] \<Longrightarrow> prefix old s \<Longrightarrow>
   replace_scan old new s = new @ replace_scan old new (drop (length old) s)"
  by (subst replace_scan.simps) simp

lemma replace_scan_Cons:
  "old \<noteq> [] \<Longrightarrow> \<not> prefix old (c # cs) \<Longrightarrow>
   replace_scan old new (c # cs) = c # replace_scan old new cs"
  by (subst replace_scan.simps) simp

lemma replace_scan_length_ge:
  "old \<noteq> [] \<Longrightarrow> length old \<le> length new \<Longrightarrow> length s \<le> length (replace_scan old new s)"
proof (induction old new s rule: replace_scan.induct)
  case (1 old new s)
  note ne = "1.prems"(1) and len = "1.prems"(2)
  show ?case
  proof (cases "prefix old s")
    case True
    have le: "length old \<le> length s" using True by (rule prefix_length_le)
    have eq: "replace_scan old new s = new @ replace_scan old new (drop (length old) s)"
      using ne True by (rule replace_scan_prefix)
    have "length (drop (length old) s) \<le> length (replace_scan old new (drop (length old) s))"
      using ne True ne len by (rule "1.IH"(1))
    then show ?thesis using le len unfolding eq by simp
  next
    case False
    show ?thesis
    proof (cases s)
      case Nil
      then show ?thesis by simp
    next
      case (Cons c cs)
      have eq: "replace_scan old new (c # cs) = c # replace_scan old new cs"
        using ne False unfolding Cons by (rule replace_scan_Cons)
      have "length cs \<le> length (replace_scan old new cs)"
        using ne False Cons ne len by (rule "1.IH"(2))
      then show ?thesis unfolding Cons eq by simp
    qed
  qed
qed

lemma replace_scan_length_gt:
  "old \<noteq> [] \<Longrightarrow> length old < length new \<Longrightarrow> sublist old s \<Longrightarrow>
   length s < length (replace_scan old new s)"
proof (induction old new s rule: replace_scan.induct)
  case (1 old new s)
  note ne = "1.prems"(1) and len = "1.prems"(2) and sub = "1.prems"(3)
  show ?case
  proof (cases "prefix old s")
    case True
    have le: "length old \<le> length s" using True by (rule prefix_length_le)
    have eq: "replace_scan old new s = new @ replace_scan old new (drop (length old) s)"
      using ne True by (rule replace_scan_prefix)
    have "length (drop (length old) s) \<le> length (replace_scan old new (drop (length old) s))"
      using ne len by (intro replace_scan_length_ge) simp_all
    then show ?thesis using le len unfolding eq by simp
  next
    case False
    show ?thesis
    proof (cases s)
      case Nil
      with sub ne show ?thesis by simp
    next
      case (Cons c cs)
      have eq: "replace_scan old new (c # cs) = c # replace_scan old new cs"
        using ne False unfolding Cons by (rule replace_scan_Cons)
      have "sublist old cs" using False sub unfolding Cons by (simp add: sublist_Cons_right)
      with ne False Cons ne len have "length cs < length (replace_scan old new cs)"
        by (rule "1.IH"(2))
      then show ?thesis unfolding Cons eq by simp
    qed
  qed
qed

lemma replace_scan_absent:
  "old \<noteq> [] \<Longrightarrow> \<not> sublist old s \<Longrightarrow> replace_scan old new s = s"
proof (induction s)
  case Nil
  then show ?case by (simp add: replace_scan_Nil)
next
  case (Cons c cs)
  then have "\<not> prefix old (c # cs)" "\<not> sublist old cs"
    by (auto simp: sublist_Cons_right)
  with Cons show ?case by (simp add: replace_scan_Cons)
qed

lemma svg_not_prefix_across:
  assumes "\<not> sublist (lit ''.svg'') (c # cs)"
  shows "\<not> prefix (lit ''.svg'') (c # cs @ lit ''.svg'')"
proof
  assume p: "prefix (lit ''.svg'') (c # cs @ lit ''.svg'')"
  show False
  proof (cases cs)
    case Nil
    with p show False by (simp add: lit_def)
  next
    case (Cons d ds)
    show False
    proof (cases ds)
      case Nil
      with p Cons show False by (simp add: lit_def)
    next
      case (Cons e es)
      note ds = this
      show False
      proof (cases es)
        case Nil
        with p \<open>cs = d # ds\<close> ds show False by (simp add: lit_def)
      next
        case (Cons f fs)
        with p \<open>cs = d # ds\<close> ds have "prefix (lit ''.svg'') (c # cs)"
          by (simp add: lit_def)
        then show False using assms by (simp add: sublist_Cons_right)
      qed
    qed
  qed
qed

lemma replace_svg_suffix_only:
  "\<not> sublist (lit ''.svg'') stem \<Longrightarrow>
   replace (stem @ lit ''.svg'') (lit ''.svg'') (lit ''.mermaid'') = stem @ lit ''.mermaid''"
proof (induction stem)
  case Nil
  have "replace_scan (lit ''.svg'') (lit ''.mermaid'') (lit ''.svg'') = lit ''.mermaid''"
    by (subst replace_scan.simps) (simp add: lit_def replace_scan_Nil)
  then show ?case by (simp add: replace_def lit_def)
next
  case (Cons c cs)
  have np: "\<not> prefix (lit ''.svg'') (c # cs @ lit ''.svg'')"
    using Cons.prems by (rule svg_not_prefix_across)
  from Cons.prems have "\<not> sublist (lit ''.svg'') cs"
    by (simp add: sublist_Cons_right)
  then have "replace (cs @ lit ''.svg'') (lit ''.svg'') (lit ''.mermaid'') = cs @ lit ''.mermaid''"
    by (rule Cons.IH)
  then show ?case using np
    by (simp add: replace_def lit_def replace_scan_Cons)
qed

lemma replace_svg_absent:
  "\<not> sublist (lit ''.svg'') s \<Longrightarrow> replace s (lit ''.svg'') (lit ''.mermaid'') = s"
  by (simp add: replace_def lit_def replace_scan_absent)

lemma replace_svg_changes:
  "sublist (lit ''.svg'') s \<Longrightarrow> replace s (lit ''.svg'') (lit ''.mermaid'') \<noteq> s"
proof -
  assume "sublist (lit ''.svg'') s"
  then have "length s < length (replace_scan (lit ''.svg'') (lit ''.mermaid'') s)"
    by (intro replace_scan_length_gt) (simp_all add: lit_def)
  then show ?thesis by (auto simp: replace_def lit_def)
qed

lemma default_fallback_name:
  "replace (lit ''meeting_flowchart.svg'') (lit ''.svg'') (lit ''.mermaid'')
     = lit ''meeting_flowchart.mermaid''"
  using replace_svg_suffix_only[of "lit ''meeting_flowchart''"]
  by (simp add: lit_def sublist_Cons_right)

lemma replace_a_svg_svg:
  "replace (lit ''a.svg.svg'') (lit ''.svg'') (lit ''.mermaid'') = lit ''a.mermaid.mermaid''"
  by (simp add: replace_def replace_scan.simps lit_def)

lemma replace_chart_png:
  "replace (lit ''chart.png'') (lit ''.svg'') (lit ''.mermaid'') = lit ''chart.png''"
  by (simp add: replace_def replace_scan.simps lit_def)

text \<open>
  What the script does on every output name: on an HTTP error the fallback file is named
  by \<^verbatim>\<open>str.replace\<close>. For a name that ends in \<^verbatim>\<open>.svg\<close> and has no other
  occurrence of it (such as the default name) this swaps the extension and leaves the
  rest of the name unchanged; a name without \<^verbatim>\<open>.svg\<close> is used as it is.
\<close>

lemma fallback_name_by_replace:
  assumes "encoded_mermaid mermaid_code = Inr payload"
    and "urlopen (render_url payload) = HTTP_Error code msg"
  shows "files (fst (render_mermaid_to_svg urlopen mermaid_code output_file w))
           = (files w)(replace output_file (lit ''.svg'') (lit ''.mermaid'') \<mapsto> mermaid_code)
       \<and> (\<forall>stem. output_file = stem @ lit ''.svg'' \<and> \<not> sublist (lit ''.svg'') stem \<longrightarrow>
              replace output_file (lit ''.svg'') (lit ''.mermaid'') = stem @ lit ''.mermaid'')
       \<and> (\<not> sublist (lit ''.svg'') output_file \<longrightarrow>
              replace output_file (lit ''.svg'') (lit ''.mermaid'') = output_file)"
  using assms replace_svg_suffix_only replace_svg_absent
  by (simp add: render_cases)

lemma fallback_name_default:
  "files (fst (render_mermaid_to_svg (\<lambda>_. HTTP_Error 500 (lit ''Internal Server Error''))
       (lit ''A'') (lit ''meeting_flowchart.svg'') \<lparr>files = Map.empty, stdout = []\<rparr>))
     = [lit ''meeting_flowchart.mermaid'' \<mapsto> lit ''A'']"
  by (simp add: render_cases encoded_mermaid_A default_fallback_name)

text \<open>
  Claim C8. On render failure the fallback file should be named by swapping the image
  extension of the output name for \<^verbatim>\<open>.mermaid\<close>, the rest of the name unchanged. The
  script does not do this on every name. For the output name \<^verbatim>\<open>a.svg.svg\<close> it writes
  the fallback to \<^verbatim>\<open>a.mermaid.mermaid\<close> and not to \<^verbatim>\<open>a.svg.mermaid\<close>; for the
  output name \<^verbatim>\<open>chart.png\<close> it writes the fallback text into \<^verbatim>\<open>chart.png\<close> itself.
\<close>

theorem fallback_name_not_a_suffix_swap:
  "files (fst (render_mermaid_to_svg (\<lambda>_. HTTP_Error 500 (lit ''Internal Server Error''))
       (lit ''A'') (lit ''a.svg'' @ lit ''.svg'') \<lparr>files = Map.empty, stdout = []\<rparr>))
     (lit ''a.svg'' @ lit ''.mermaid'') = None
   \<and> files (fst (render_mermaid_to_svg (\<lambda>_. HTTP_Error 500 (lit ''Internal Server Error''))
       (lit ''A'') (lit ''a.svg'' @ lit ''.svg'') \<lparr>files = Map.empty, stdout = []\<rparr>))
     (lit ''a.mermaid.mermaid'') = Some (lit ''A'')
   \<and> files (fst (render_mermaid_to_svg (\<lambda>_. HTTP_Error 500 (lit ''Internal Server Error''))
       (lit ''A'') (lit ''chart.png'') \<lparr>files = Map.empty, stdout = []\<rparr>))
     = [lit ''chart.png'' \<mapsto> lit ''A'']"
proof -
  have n: "lit ''a.svg'' @ lit ''.svg'' = lit ''a.svg.svg''" by (simp add: lit_def)
  have d: "lit ''a.svg'' @ lit ''.mermaid'' \<noteq> lit ''a.mermaid.mermaid''" by (simp add: lit_def)
  show ?thesis
    unfolding n using d
    by (simp add: render_cases encoded_mermaid_A replace_a_svg_svg replace_chart_png)
qed

section \<open>An HTTP error\<close>

text \<open>
  The hypotheses below say that a request was made and answered with an HTTP error. A
  request is made only for a description text that UTF-8 can encode: for a text with a
  lone surrogate \<^verbatim>\<open>mermaid_code.encode('utf-8')\<close> raises on line 54, before the
  \<^verbatim>\<open>try\<close> block, whatever the service would answer, so there is no response at all.
\<close>

lemma encoded_mermaid_surrogate: "encoded_mermaid [0xD800] = Inl UnicodeEncodeError"
  by (simp add: encoded_mermaid_eq str_encode_utf8_def encode_code_point_def is_surrogate_def)

lemma render_surrogate_no_request:
  "render_mermaid_to_svg urlopen [0xD800] output_file w = (w, Some UnicodeEncodeError)"
  by (simp add: render_cases encoded_mermaid_surrogate)

lemma default_names_differ:
  "lit ''meeting_flowchart.mermaid'' \<noteq> lit ''meeting_flowchart.svg''"
  by (simp add: lit_def)

text \<open>
  Claim C1. For every description text and every HTTP error answering the request, the
  call does not raise; the fallback file then holds exactly the original (unencoded)
  description text and no other file is touched. With the default output name the
  fallback file is \<^verbatim>\<open>meeting_flowchart.mermaid\<close> and the image file
  \<^verbatim>\<open>meeting_flowchart.svg\<close> is not written; for any output name that contains
  \<^verbatim>\<open>.svg\<close> the image file is not written.
\<close>

theorem render_http_error_writes_fallback:
  assumes "encoded_mermaid mermaid_code = Inr payload"
    and "urlopen (render_url payload) = HTTP_Error code msg"
  shows "snd (render_mermaid_to_svg urlopen mermaid_code output_file w) = None
       \<and> files (fst (render_mermaid_to_svg urlopen mermaid_code output_file w))
            (replace output_file (lit ''.svg'') (lit ''.mermaid'')) = Some mermaid_code
       \<and> (\<forall>p. p \<noteq> replace output_file (lit ''.svg'') (lit ''.mermaid'') \<longrightarrow>
              files (fst (render_mermaid_to_svg urlopen mermaid_code output_file w)) p = files w p)
       \<and> (sublist (lit ''.svg'') output_file \<longrightarrow>
              files (fst (render_mermaid_to_svg urlopen mermaid_code output_file w)) output_file
                = files w output_file)
       \<and> snd (render_mermaid_to_svg urlopen mermaid_code (lit ''meeting_flowchart.svg'') w) = None
       \<and> files (fst (render_mermaid_to_svg urlopen mermaid_code (lit ''meeting_flowchart.svg'') w))
            = (files w)(lit ''meeting_flowchart.mermaid'' \<mapsto> mermaid_code)
       \<and> files (fst (render_mermaid_to_svg urlopen mermaid_code (lit ''meeting_flowchart.svg'') w))
            (lit ''meeting_flowchart.svg'') = files w (lit ''meeting_flowchart.svg'')"
proof -
  have general: "snd (render_mermaid_to_svg urlopen mermaid_code output_file w) = None
       \<and> files (fst (render_mermaid_to_svg urlopen mermaid_code output_file w))
            (replace output_file (lit ''.svg'') (lit ''.mermaid'')) = Some mermaid_code
       \<and> (\<forall>p. p \<noteq> replace output_file (lit ''.svg'') (lit ''.mermaid'') \<longrightarrow>
              files (fst (render_mermaid_to_svg urlopen mermaid_code output_file w)) p = files w p)
       \<and> (sublist (lit ''.svg'') output_file \<longrightarrow>
              files (fst (render_mermaid_to_svg urlopen mermaid_code output_file w)) output_file
                = files w output_file)"
    using assms replace_svg_changes[of output_file]
    by (auto simp: render_cases)
  have default: "snd (render_mermaid_to_svg urlopen mermaid_code (lit ''meeting_flowchart.svg'') w) = None
       \<and> files (fst (render_mermaid_to_svg urlopen mermaid_code (lit ''meeting_flowchart.svg'') w))
            = (files w)(lit ''meeting_flowchart.mermaid'' \<mapsto> mermaid_code)
       \<and> files (fst (render_mermaid_to_svg urlopen mermaid_code (lit ''meeting_flowchart.svg'') w))
            (lit ''meeting_flowchart.svg'') = files w (lit ''meeting_flowchart.svg'')"
    using assms default_names_differ
    by (simp add: render_cases default_fallback_name)
  from general default show ?thesis by blast
qed

lemma http_error_str_404:
  "http_error_str 404 (lit ''Not Found'') = lit ''HTTP Error 404: Not Found''"
  by (simp add: http_error_str_def decimal.simps lit_def)

theorem render_http_error_writes_fallback_witness:
  "render_mermaid_to_svg (\<lambda>_. HTTP_Error 404 (lit ''Not Found'')) (lit ''A'')
       (lit ''meeting_flowchart.svg'') \<lparr>files = Map.empty, stdout = []\<rparr>
   = (\<lparr>files = [lit ''meeting_flowchart.mermaid'' \<mapsto> lit ''A''],
       stdout = [lit ''Error rendering SVG: '' @ lit ''HTTP Error 404: Not Found'',
                 lit ''Falling back to saving Mermaid code as text file...'',
                 lit ''Mermaid code saved to '' @ [39] @ lit ''meeting_flowchart.mermaid'' @ [39],
                 lit ''You can copy this code to https://mermaid.live to render the diagram manually.'']\<rparr>,
      None)"
  using render_http_error_writes_fallback[of "lit ''A''" "lit ''QQ==''"
      "\<lambda>_. HTTP_Error 404 (lit ''Not Found'')" 404 "lit ''Not Found''"
      "lit ''meeting_flowchart.svg''" "\<lparr>files = Map.empty, stdout = []\<rparr>"]
  by (simp add: render_cases encoded_mermaid_A default_fallback_name print_def write_file_def
      http_error_str_404)

section \<open>Running the script twice\<close>

lemma render_files_add:
  "files (fst (render_mermaid_to_svg urlopen mermaid_code output_file w))
     = files w ++ files (fst (render_mermaid_to_svg urlopen mermaid_code output_file
                                \<lparr>files = Map.empty, stdout = []\<rparr>))"
  by (simp add: render_cases split: sum.split http_outcome.split option.split)

lemma main_files_add:
  "files (fst (main create urlopen w))
     = files w ++ files (fst (main create urlopen \<lparr>files = Map.empty, stdout = []\<rparr>))"
proof (cases "generate_meeting_flowchart create (join nl meeting_summary_parts) participant_names")
  case (Inl e)
  then show ?thesis by (simp add: main_def)
next
  case (Inr flowchart_code)
  then show ?thesis
    unfolding main_def Let_def
    by (simp add: render_files_add[where w = "print _ _"])
qed

lemma snd_main_independent:
  "snd (main create urlopen w) = snd (main create urlopen w')"
proof (cases "generate_meeting_flowchart create (join nl meeting_summary_parts) participant_names")
  case (Inl e)
  then show ?thesis by (simp add: main_def)
next
  case (Inr flowchart_code)
  then show ?thesis
    unfolding main_def Let_def
    by (simp only: sum.case) (rule snd_render_independent)
qed

text \<open>
  Claim C9. With the completion service and the rendering service fixed, the files the
  script leaves are a function of the two services alone: after a run, the file system
  is the one before the run overwritten by a set of files that does not depend on the
  state the run started in, and the run ends the same way (normally, or with the same
  exception). Hence a second run, started where the first one ended, leaves every file
  exactly as the first run left it.
\<close>

theorem pipeline_outputs_determined_by_services:
  "files (fst (main create urlopen w))
     = files w ++ files (fst (main create urlopen \<lparr>files = Map.empty, stdout = []\<rparr>))
   \<and> snd (main create urlopen w) = snd (main create urlopen \<lparr>files = Map.empty, stdout = []\<rparr>)
   \<and> files (fst (main create urlopen (fst (main create urlopen w))))
       = files (fst (main create urlopen w))
   \<and> snd (main create urlopen (fst (main create urlopen w))) = snd (main create urlopen w)"
proof -
  let ?out = "files (fst (main create urlopen \<lparr>files = Map.empty, stdout = []\<rparr>))"
  have 1: "files (fst (main create urlopen w)) = files w ++ ?out"
    by (rule main_files_add)
  have "files (fst (main create urlopen (fst (main create urlopen w))))
          = files (fst (main create urlopen w)) ++ ?out"
    by (rule main_files_add)
  also have "\<dots> = files w ++ (?out ++ ?out)"
    by (simp only: 1 map_add_assoc)
  also have "\<dots> = files w ++ ?out"
    by (simp add: map_add_subsumed1)
  finally have 3: "files (fst (main create urlopen (fst (main create urlopen w))))
          = files (fst (main create urlopen w))"
    by (simp only: 1)
  show ?thesis
    using 1 3 snd_main_independent[of create urlopen w "\<lparr>files = Map.empty, stdout = []\<rparr>"]
      snd_main_independent[of create urlopen "fst (main create urlopen w)" w]
    by simp
qed

section \<open>A success response\<close>

text \<open>
  Claim C2, as stated, fails: the body is decoded with \<^verbatim>\<open>response.read().decode('utf-8')\<close>
  before anything is written, so for a body that is not valid UTF-8 (here the single
  byte \<open>0xFF\<close>) the call raises and the output file is not written at all.
\<close>

theorem render_success_any_body_counterexample:
  "snd (render_mermaid_to_svg (\<lambda>_. Success [0xFF]) (lit ''A'') (lit ''meeting_flowchart.svg'')
          \<lparr>files = Map.empty, stdout = []\<rparr>) = Some UnicodeDecodeError
   \<and> files (fst (render_mermaid_to_svg (\<lambda>_. Success [0xFF]) (lit ''A'') (lit ''meeting_flowchart.svg'')
          \<lparr>files = Map.empty, stdout = []\<rparr>)) (lit ''meeting_flowchart.svg'') = None"
  by (simp add: render_cases encoded_mermaid_A decode_FF)

text \<open>
  Claim C2, amended. For every description text that UTF-8 can encode and every success
  response whose body is valid UTF-8, the call returns normally and the output file
  holds the decoded text of the body, whose UTF-8 encoding is the body exactly; no other
  file is touched, so no fallback file is created (the fallback name differs from the
  output name whenever the latter contains \<^verbatim>\<open>.svg\<close>).
\<close>

theorem render_success_writes_image:
  assumes "encoded_mermaid mermaid_code = Inr payload"
    and "urlopen (render_url payload) = Success body"
    and "bytes_decode_utf8 body = Some svg_content"
  shows "snd (render_mermaid_to_svg urlopen mermaid_code output_file w) = None
       \<and> files (fst (render_mermaid_to_svg urlopen mermaid_code output_file w)) output_file
            = Some svg_content
       \<and> str_encode_utf8 svg_content = Some body
       \<and> (\<forall>p. p \<noteq> output_file \<longrightarrow>
              files (fst (render_mermaid_to_svg urlopen mermaid_code output_file w)) p = files w p)
       \<and> (sublist (lit ''.svg'') output_file \<longrightarrow>
              files (fst (render_mermaid_to_svg urlopen mermaid_code output_file w))
                (replace output_file (lit ''.svg'') (lit ''.mermaid''))
              = files w (replace output_file (lit ''.svg'') (lit ''.mermaid'')))"
  using assms replace_svg_changes[of output_file] str_encode_utf8_decode[of body svg_content]
  by (auto simp: render_cases)

theorem render_success_writes_image_witness:
  "render_mermaid_to_svg (\<lambda>_. Success [0x3C, 0x73, 0x76, 0x67, 0x2F, 0x3E]) (lit ''A'')
       (lit ''meeting_flowchart.svg'') \<lparr>files = Map.empty, stdout = []\<rparr>
   = (\<lparr>files = [lit ''meeting_flowchart.svg'' \<mapsto> lit ''<svg/>''],
       stdout = [nl @ lit ''SVG diagram saved to '' @ [39] @ lit ''meeting_flowchart.svg'' @ [39]]\<rparr>,
      None)
   \<and> str_encode_utf8 (lit ''<svg/>'') = Some [0x3C, 0x73, 0x76, 0x67, 0x2F, 0x3E]"
  using render_success_writes_image[of "lit ''A''" "lit ''QQ==''"
      "\<lambda>_. Success [0x3C, 0x73, 0x76, 0x67, 0x2F, 0x3E]" "[0x3C, 0x73, 0x76, 0x67, 0x2F, 0x3E]"
      "lit ''<svg/>''" "lit ''meeting_flowchart.svg''" "\<lparr>files = Map.empty, stdout = []\<rparr>"]
  by (simp add: render_cases encoded_mermaid_A decode_ok print_def write_file_def)

section \<open>Decoding the payload of the request URL\<close>

text \<open>
  The decoder the round trip of the specification speaks of is not part of the script.
  It is written here after the words of the specification, as the inverse of URL-safe
  base64 with padding (RFC 4648, section 5): four characters of the alphabet
  \<^verbatim>\<open>A-Z a-z 0-9 - _\<close> give three bytes, and a final group ending in one or two
  \<^verbatim>\<open>=\<close> gives two bytes or one.
\<close>

definition urlsafe_alphabet :: "nat list" where
  "urlsafe_alphabet = map of_char ''ABCDEFGHIJKLMNOPQRSTUVWXYZabcdefghijklmnopqrstuvwxyz0123456789-_''"

fun index_of :: "'a \<Rightarrow> 'a list \<Rightarrow> nat option" where
  "index_of x [] = None"
| "index_of x (y # ys) = (if x = y then Some 0 else map_option Suc (index_of x ys))"

definition urlsafe_index :: "nat \<Rightarrow> nat option" where
  "urlsafe_index c = index_of c urlsafe_alphabet"

fun spec_b64decode_units :: "nat list \<Rightarrow> nat list option" where
  "spec_b64decode_units [] = Some []"
| "spec_b64decode_units (c1 # c2 # c3 # c4 # rest) =
     (case (urlsafe_index c1, urlsafe_index c2) of
        (Some i1, Some i2) \<Rightarrow>
          if rest = [] \<and> c3 = 61 \<and> c4 = 61 then Some [i1 * 4 + i2 div 16]
          else (case urlsafe_index c3 of
                  None \<Rightarrow> None
                | Some i3 \<Rightarrow>
                    if rest = [] \<and> c4 = 61
                    then Some [i1 * 4 + i2 div 16, i2 mod 16 * 16 + i3 div 4]
                    else (case urlsafe_index c4 of
                            None \<Rightarrow> None
                          | Some i4 \<Rightarrow>
                              map_option
                                (\<lambda>r. [i1 * 4 + i2 div 16, i2 mod 16 * 16 + i3 div 4,
                                      i3 mod 4 * 64 + i4] @ r)
                                (spec_b64decode_units rest)))
      | _ \<Rightarrow> None)"
| "spec_b64decode_units _ = None"

definition spec_urlsafe_b64decode :: "str \<Rightarrow> bytes option" where
  "spec_urlsafe_b64decode payload = map_option (map of_nat) (spec_b64decode_units payload)"

definition urlsafe_char :: "nat \<Rightarrow> nat" where
  "urlsafe_char c = (if c = 43 then 45 else if c = 47 then 95 else c)"

lemma urlsafe_alphabet_eq: "map urlsafe_char b64_alphabet = urlsafe_alphabet"
  by (simp add: b64_alphabet_def urlsafe_alphabet_def urlsafe_char_def)

lemma urlsafe_alphabet_distinct: "distinct urlsafe_alphabet"
  by (simp add: urlsafe_alphabet_def)

lemma index_of_nth: "distinct xs \<Longrightarrow> i < length xs \<Longrightarrow> index_of (xs ! i) xs = Some i"
proof (induction xs arbitrary: i)
  case Nil
  then show ?case by simp
next
  case (Cons x xs)
  show ?case
  proof (cases i)
    case 0
    then show ?thesis by simp
  next
    case (Suc j)
    with Cons.prems have "xs ! j \<noteq> x" by auto
    with Cons Suc show ?thesis by simp
  qed
qed

lemma urlsafe_index_char: "i < 64 \<Longrightarrow> urlsafe_index (urlsafe_char (b64_char i)) = Some i"
proof -
  assume i: "i < 64"
  then have "urlsafe_char (b64_char i) = urlsafe_alphabet ! i"
    unfolding b64_char_def urlsafe_alphabet_eq[symmetric]
    by (simp add: b64_alphabet_length)
  moreover have "i < length urlsafe_alphabet"
    using i unfolding urlsafe_alphabet_eq[symmetric] by (simp add: b64_alphabet_length)
  ultimately show ?thesis
    unfolding urlsafe_index_def by (simp add: index_of_nth urlsafe_alphabet_distinct)
qed

lemma urlsafe_index_pad: "urlsafe_index 61 = None"
  by (simp add: urlsafe_index_def urlsafe_alphabet_def)

lemma urlsafe_char_not_pad: "i < 64 \<Longrightarrow> urlsafe_char (b64_char i) \<noteq> 61"
  using urlsafe_index_char[of i] urlsafe_index_pad by auto

lemma urlsafe_char_pad: "urlsafe_char 61 = 61"
  by (simp add: urlsafe_char_def)

lemma group_byte1: "(b::nat) < 256 \<Longrightarrow> a div 4 * 4 + (a mod 4 * 16 + b div 16) div 16 = a"
proof -
  assume "b < 256"
  then have "b div 16 < 16" by simp
  then have "(a mod 4 * 16 + b div 16) div 16 = a mod 4" by simp
  then show ?thesis by simp
qed

lemma group_byte2:
  "(b::nat) < 256 \<Longrightarrow> c < 256 \<Longrightarrow>
   (a mod 4 * 16 + b div 16) mod 16 * 16 + (b mod 16 * 4 + c div 64) div 4 = b"
proof -
  assume "b < 256" "c < 256"
  then have b: "b div 16 < 16" and c: "c div 64 < 4" by simp_all
  have 2: "(a mod 4 * 16 + b div 16) mod 16 = b div 16" using b by simp
  have 3: "(b mod 16 * 4 + c div 64) div 4 = b mod 16" using c by simp
  show ?thesis unfolding 2 3 by simp
qed

lemma group_byte3: "(c::nat) < 256 \<Longrightarrow> (b mod 16 * 4 + c div 64) mod 4 * 64 + c mod 64 = c"
proof -
  assume "c < 256"
  then have "c div 64 < 4" by simp
  then have "(b mod 16 * 4 + c div 64) mod 4 = c div 64" by simp
  then show ?thesis by simp
qed

lemma group_byte1_pad: "(a::nat) div 4 * 4 + (a mod 4 * 16) div 16 = a"
  by simp

lemma group_byte2_pad:
  "(b::nat) < 256 \<Longrightarrow> (a mod 4 * 16 + b div 16) mod 16 * 16 + (b mod 16 * 4) div 4 = b"
proof -
  assume "b < 256"
  then have "b div 16 < 16" by simp
  then have "(a mod 4 * 16 + b div 16) mod 16 = b div 16" by simp
  then show ?thesis by simp
qed

lemma spec_b64decode_b64_units:
  "\<forall>u\<in>set us. u < 256 \<Longrightarrow> spec_b64decode_units (map urlsafe_char (b64_units us)) = Some us"
proof (induction us rule: b64_units.induct)
  case 1
  then show ?case by simp
next
  case (2 a)
  then have a: "a < 256" by simp
  show ?case
    using sextets[OF a a a] group_byte1_pad[of a]
    by (simp add: urlsafe_index_char urlsafe_char_pad)
next
  case (3 a b)
  then have a: "a < 256" and b: "b < 256" by simp_all
  show ?case
    using sextets[OF a b b] group_byte1[OF b, of a] group_byte2_pad[OF b, of a]
      urlsafe_char_not_pad[of "b mod 16 * 4"]
    by (simp add: urlsafe_index_char urlsafe_char_pad)
next
  case (4 a b c r)
  then have a: "a < 256" and b: "b < 256" and c: "c < 256"
    and r: "spec_b64decode_units (map urlsafe_char (b64_units r)) = Some r"
    by simp_all
  show ?case
    using sextets[OF a b c] group_byte1[OF b, of a] group_byte2[OF b c, of a] group_byte3[OF c, of b]
      urlsafe_char_not_pad[of "b mod 16 * 4 + c div 64"] urlsafe_char_not_pad[of "c mod 64"]
    by (simp add: urlsafe_index_char r)
qed

lemma unat_urlsafe_translate:
  "v < 128 \<Longrightarrow> unat (urlsafe_translate (of_nat v)) = urlsafe_char v"
  by (auto simp: urlsafe_translate_def urlsafe_char_def unat_of_nat word_eq_iff_unsigned[where ?'a = nat])

lemma urlsafe_b64encode_units:
  "map unat (urlsafe_b64encode bs) = map urlsafe_char (b64_units (map unat bs))"
proof -
  have "\<forall>v\<in>set (b64_units (map unat bs)). v < 128"
    by (rule b64_units_ascii) (simp add: unat_byte_less)
  then have "map (\<lambda>v. unat (urlsafe_translate (of_nat v))) (b64_units (map unat bs))
               = map urlsafe_char (b64_units (map unat bs))"
    by (intro map_cong refl) (simp add: unat_urlsafe_translate)
  then show ?thesis
    by (simp add: urlsafe_b64encode_def b64encode_def comp_def)
qed

lemma spec_urlsafe_b64decode_encode:
  "spec_urlsafe_b64decode (map unat (urlsafe_b64encode bs)) = Some bs"
proof -
  have "spec_b64decode_units (map urlsafe_char (b64_units (map unat bs))) = Some (map unat bs)"
    by (rule spec_b64decode_b64_units) (simp add: unat_byte_less)
  then show ?thesis
    unfolding spec_urlsafe_b64decode_def urlsafe_b64encode_units
    by (simp only: option.map map_of_nat_unat)
qed

lemma encode_code_point_scalar:
  "(\<exists>us. encode_code_point c = Some us) \<longleftrightarrow> c < 0x110000 \<and> \<not> is_surrogate c"
  by (auto simp: encode_code_point_def is_surrogate_def)

lemma encode_units_scalar:
  "(\<exists>us. encode_units s = Some us) \<longleftrightarrow> (\<forall>c\<in>set s. c < 0x110000 \<and> \<not> is_surrogate c)"
proof (induction s)
  case Nil
  then show ?case by simp
next
  case (Cons c cs)
  have "(\<exists>us. encode_units (c # cs) = Some us)
          \<longleftrightarrow> (\<exists>e. encode_code_point c = Some e) \<and> (\<exists>r. encode_units cs = Some r)"
    by (auto split: option.splits)
  then show ?case using Cons by (simp add: encode_code_point_scalar)
qed

lemma str_encode_utf8_scalar:
  "(\<exists>bs. str_encode_utf8 s = Some bs) \<longleftrightarrow> (\<forall>c\<in>set s. c < 0x110000 \<and> \<not> is_surrogate c)"
  using encode_units_scalar[of s] by (auto simp: str_encode_utf8_def)

lemma render_only_reads_request_url:
  "encoded_mermaid mermaid_code = Inr payload \<Longrightarrow>
   render_mermaid_to_svg urlopen mermaid_code output_file w
     = render_mermaid_to_svg (\<lambda>_. urlopen (lit ''https://kroki.io/mermaid/svg/'' @ payload))
         mermaid_code output_file w"
  by (simp add: render_cases render_url_def)

text \<open>
  Claim C3, as stated, fails: the encoding is not total on Python strings. For the
  description text that is the lone surrogate \<open>U+D800\<close>, \<^verbatim>\<open>encode('utf-8')\<close> raises
  and no payload and no URL are constructed.
\<close>

theorem payload_round_trip_counterexample:
  "str_encode_utf8 [0xD800] = None \<and> encoded_mermaid [0xD800] = Inl UnicodeEncodeError"
  by (simp add: encoded_mermaid_eq str_encode_utf8_def encode_code_point_def is_surrogate_def)

text \<open>
  Claim C3, amended. For every description text without surrogate code points (the empty
  text and texts with non-ASCII characters included), the text has a UTF-8 encoding, the
  URL requested is the fixed prefix \<^verbatim>\<open>https://kroki.io/mermaid/svg/\<close> followed by the
  URL-safe base64 encoding of those bytes, and decoding that payload gives back the bytes
  and from them the description text itself.
\<close>

theorem payload_round_trip:
  assumes "\<forall>c\<in>set mermaid_code. c < 0x110000 \<and> \<not> is_surrogate c"
  shows "\<exists>mermaid_bytes payload.
           str_encode_utf8 mermaid_code = Some mermaid_bytes
           \<and> payload = map unat (urlsafe_b64encode mermaid_bytes)
           \<and> encoded_mermaid mermaid_code = Inr payload
           \<and> render_mermaid_to_svg urlopen mermaid_code output_file w
               = render_mermaid_to_svg (\<lambda>_. urlopen (lit ''https://kroki.io/mermaid/svg/'' @ payload))
                   mermaid_code output_file w
           \<and> spec_urlsafe_b64decode payload = Some mermaid_bytes
           \<and> bytes_decode_utf8 mermaid_bytes = Some mermaid_code"
proof -
  from assms obtain mermaid_bytes where e: "str_encode_utf8 mermaid_code = Some mermaid_bytes"
    using str_encode_utf8_scalar[of mermaid_code] by blast
  have p: "encoded_mermaid mermaid_code = Inr (map unat (urlsafe_b64encode mermaid_bytes))"
    by (simp add: encoded_mermaid_eq e)
  show ?thesis
    using e p render_only_reads_request_url[OF p] spec_urlsafe_b64decode_encode[of mermaid_bytes]
      bytes_decode_utf8_encode[OF e]
    by blast
qed

theorem payload_round_trip_witness:
  "encoded_mermaid [0xE9, 0x20AC] = Inr (lit ''w6nigqw='')
   \<and> spec_urlsafe_b64decode (lit ''w6nigqw='') = Some [0xC3, 0xA9, 0xE2, 0x82, 0xAC]
   \<and> bytes_decode_utf8 [0xC3, 0xA9, 0xE2, 0x82, 0xAC] = Some [0xE9, 0x20AC]"
  using payload_round_trip[of "[0xE9, 0x20AC]"]
  by (simp add: is_surrogate_def encoded_mermaid_eq str_encode_utf8_def encode_code_point_def
      urlsafe_b64encode_def b64encode_def b64_char_def b64_alphabet_def urlsafe_translate_def
      spec_urlsafe_b64decode_def urlsafe_index_def urlsafe_alphabet_def lit_def
      bytes_decode_utf8_def decode_units.simps decode_code_point_def is_cont_def cp2_def cp3_def)

end
